theory Spec2Isabelle
  imports Complex_Main
begin

section \<open>The calendar module \<open>my_calendar.py\<close>\<close>

text \<open>
  The module has four functions over Python's unbounded integers, modelled as \<open>int\<close>.
  Python's \<open>%\<close> and \<open>//\<close> with a positive divisor round toward negative infinity, as
  \<open>mod\<close> and \<open>div\<close> on \<open>int\<close> do. A raised exception is the \<open>Inl\<close> branch of a sum:
  \<open>ValueError\<close> carries its message, \<open>KeyError\<close> the key a dictionary did not hold.
\<close>

datatype error = ValueError string | KeyError int

subsection \<open>\<open>is_leap_year\<close>\<close>

definition is_leap_year :: "int \<Rightarrow> bool" where
  "is_leap_year year \<longleftrightarrow> (year mod 4 = 0 \<and> year mod 100 \<noteq> 0) \<or> year mod 400 = 0"

subsection \<open>\<open>day_of_week\<close>\<close>

text \<open>The two dictionary literals of \<open>day_of_week\<close>, key by key.\<close>

definition month_code :: "int \<rightharpoonup> int" where
  "month_code = map_of
     [(1, 1), (2, 4), (3, 4), (4, 0), (5, 2), (6, 5),
      (7, 0), (8, 3), (9, 6), (10, 1), (11, 4), (12, 6)]"

definition weekday :: "int \<rightharpoonup> string" where
  "weekday = map_of
     [(1, ''Sunday''), (2, ''Monday''), (3, ''Tuesday''), (4, ''Wednesday''),
      (5, ''Thursday''), (6, ''Friday''), (0, ''Saturday'')]"

text \<open>
  \<open>int(yy * 1.25)\<close>: the factor 1.25 is the binary fraction 5/4 and \<open>yy\<close> is an integer
  far below \<open>2 ^ 53\<close> wherever the function is called (\<open>yy = year % 100\<close>), so the double
  product is exactly \<open>5 * yy / 4\<close>; \<open>int\<close> then drops the fraction, toward zero.
\<close>

definition int_times_1_25 :: "int \<Rightarrow> int" where
  "int_times_1_25 yy = (if 0 \<le> yy then (5 * yy) div 4 else - ((5 * (- yy)) div 4))"

definition day_of_week :: "int \<Rightarrow> int \<Rightarrow> int \<Rightarrow> error + string" where
  "day_of_week day month year =
     (if year < 1753 then Inl (ValueError ''This algorithm is intended for years >= 1753.'')
      else if month < 1 \<or> month > 12 then Inl (ValueError ''Month must be in 1..12.'')
      else
        let yy = year mod 100 in
        case month_code month of
          None \<Rightarrow> Inl (KeyError month)
        | Some code \<Rightarrow>
            let base = int_times_1_25 yy + day + code;
                base = (if is_leap_year year \<and> (month = 1 \<or> month = 2) then base - 1 else base);
                base = (if year < 1800 then base + 4 else if year < 1900 then base + 2 else base);
                base = (if 2000 < year \<and> year \<le> 2100 then base - 1 else base)
            in case weekday (base mod 7) of
                 None \<Rightarrow> Inl (KeyError (base mod 7))
               | Some name \<Rightarrow> Inr name)"

subsection \<open>\<open>week_number\<close>\<close>

definition month_len :: "int \<rightharpoonup> int" where
  "month_len = map_of
     [(1, 31), (2, 28), (3, 31), (4, 30),
      (5, 31), (6, 30), (7, 31), (8, 31),
      (9, 30), (10, 31), (11, 30), (12, 31)]"

text \<open>
  \<open>sum(month_len[m] for m in range(1, month))\<close>: the generator looks the keys up one
  after the other, \<open>sum\<close> adds each value to its accumulator, and the first missing key
  raises its \<open>KeyError\<close>.
\<close>

fun sum_lookup :: "(int \<rightharpoonup> int) \<Rightarrow> int list \<Rightarrow> int \<Rightarrow> error + int" where
  "sum_lookup tbl [] acc = Inr acc"
| "sum_lookup tbl (m # ms) acc =
     (case tbl m of
        None \<Rightarrow> Inl (KeyError m)
      | Some v \<Rightarrow> sum_lookup tbl ms (acc + v))"

definition week_number :: "int \<Rightarrow> int \<Rightarrow> int \<Rightarrow> error + int" where
  "week_number day month year =
     (let tbl = (if is_leap_year year then month_len(2 \<mapsto> 29) else month_len) in
      case sum_lookup tbl [1..month - 1] 0 of
        Inl e \<Rightarrow> Inl e
      | Inr s \<Rightarrow> let day_of_year = day + s in Inr (day_of_year div 7))"

subsection \<open>\<open>date_summary\<close>\<close>

text \<open>
  The returned dictionary has three fixed keys; its entries are evaluated in order. The
  key \<open>"weekday"\<close> is the field \<open>weekday_name\<close>, apart from the table \<open>weekday\<close> above.
\<close>

record Summary =
  leapyear :: bool
  weekday_name :: string
  week :: int

definition date_summary :: "int \<Rightarrow> int \<Rightarrow> int \<Rightarrow> error + Summary" where
  "date_summary day month year =
     (let ly = is_leap_year year in
      case day_of_week day month year of
        Inl e \<Rightarrow> Inl e
      | Inr wd \<Rightarrow>
          (case week_number day month year of
             Inl e \<Rightarrow> Inl e
           | Inr wk \<Rightarrow> Inr \<lparr>leapyear = ly, weekday_name = wd, week = wk\<rparr>))"

section \<open>The algorithms as the specification words them\<close>

text \<open>
  The weekday algorithm of the specification: the month codes and the weekday names as
  tables indexed from January and from remainder 0, the product with 1.25 floored over
  the reals, and the century adjustment as one four-way choice.
\<close>

definition spec_month_code :: "int \<Rightarrow> int" where
  "spec_month_code month = [1, 4, 4, 0, 2, 5, 0, 3, 6, 1, 4, 6] ! nat (month - 1)"

definition spec_weekday_name :: "int \<Rightarrow> string" where
  "spec_weekday_name r =
     [''Saturday'', ''Sunday'', ''Monday'', ''Tuesday'', ''Wednesday'', ''Thursday'', ''Friday'']
       ! nat r"

definition spec_day_of_week :: "int \<Rightarrow> int \<Rightarrow> int \<Rightarrow> string" where
  "spec_day_of_week day month year =
     (let base = \<lfloor>real_of_int (year mod 100) * 1.25\<rfloor> + day + spec_month_code month;
          base = base - (if is_leap_year year \<and> (month = 1 \<or> month = 2) then 1 else 0);
          base = base + (if year < 1800 then 4
                         else if 1800 \<le> year \<and> year < 1900 then 2
                         else if 2000 < year \<and> year \<le> 2100 then - 1
                         else 0)
      in spec_weekday_name (base mod 7))"

text \<open>
  The week index of the specification: the twelve month lengths with February's depending
  on the leap year, the day of the year as the day plus the lengths of the months before,
  and division that truncates toward zero.
\<close>

definition spec_month_lengths :: "int \<Rightarrow> int list" where
  "spec_month_lengths year =
     [31, if is_leap_year year then 29 else 28, 31, 30, 31, 30, 31, 31, 30, 31, 30, 31]"

definition spec_day_of_year :: "int \<Rightarrow> int \<Rightarrow> int \<Rightarrow> int" where
  "spec_day_of_year day month year =
     day + sum_list (take (nat (month - 1)) (spec_month_lengths year))"

definition trunc_div :: "int \<Rightarrow> int \<Rightarrow> int" where
  "trunc_div a b = sgn a * sgn b * (\<bar>a\<bar> div \<bar>b\<bar>)"

section \<open>Table lookups and ranges\<close>

lemma upto_from_1: "[1..numeral n] = 1 # [2..numeral n]"
  by (simp add: upto_rec1)

lemma month_cases:
  assumes "1 \<le> month" "month \<le> 12"
  shows "month \<in> {1, 2, 3, 4, 5, 6, 7, 8, 9, 10, 11, 12::int}"
  using assms by simp presburger

lemma remainder_cases:
  "(b::int) mod 7 \<in> {0, 1, 2, 3, 4, 5, 6}"
proof -
  have "0 \<le> b mod 7" "b mod 7 < 7" by simp_all
  then show ?thesis by auto
qed

lemma month_code_spec:
  assumes "1 \<le> month" "month \<le> 12"
  shows "month_code month = Some (spec_month_code month)"
  using month_cases [OF assms] by (auto simp: month_code_def spec_month_code_def)

lemma weekday_spec: "weekday (b mod 7) = Some (spec_weekday_name (b mod 7))"
  using remainder_cases [of b] by (auto simp: weekday_def spec_weekday_name_def)

lemma int_times_1_25_floor:
  assumes "0 \<le> yy"
  shows "int_times_1_25 yy = \<lfloor>real_of_int yy * 1.25\<rfloor>"
proof -
  have "real_of_int yy * 1.25 = real_of_int (5 * yy) / real_of_int 4" by simp
  then have "\<lfloor>real_of_int yy * 1.25\<rfloor> = (5 * yy) div 4"
    by (simp only: floor_divide_of_int_eq)
  with assms show ?thesis by (simp add: int_times_1_25_def)
qed

lemma month_code_defined:
  assumes "1 \<le> month" "month \<le> 12"
  shows "\<exists>code. month_code month = Some code"
  using month_cases [OF assms] by (auto simp: month_code_def)

lemma weekday_names:
  "\<exists>name \<in> set [''Sunday'', ''Monday'', ''Tuesday'', ''Wednesday'', ''Thursday'',
       ''Friday'', ''Saturday'']. weekday (b mod 7) = Some name"
  using remainder_cases [of b] by (auto simp: weekday_def)

lemma day_of_week_returns:
  assumes "1 \<le> month" "month \<le> 12" "1753 \<le> year"
  shows "\<exists>name. day_of_week day month year = Inr name"
proof -
  obtain code where c: "month_code month = Some code"
    using month_code_defined [OF assms(1,2)] by blast
  define base where "base =
    (let base = int_times_1_25 (year mod 100) + day + code;
         base = (if is_leap_year year \<and> (month = 1 \<or> month = 2) then base - 1 else base);
         base = (if year < 1800 then base + 4 else if year < 1900 then base + 2 else base)
     in if 2000 < year \<and> year \<le> 2100 then base - 1 else base)"
  obtain name where n: "weekday (base mod 7) = Some name"
    using weekday_names [of base] by blast
  have "day_of_week day month year = Inr name"
    using assms n by (simp add: day_of_week_def c Let_def base_def)
  then show ?thesis ..
qed

lemma day_of_week_raises:
  assumes "year < 1753 \<or> month < 1 \<or> 12 < month"
  shows "\<exists>msg. day_of_week day month year = Inl (ValueError msg)"
  using assms by (auto simp: day_of_week_def)

lemma sum_lookup_append:
  "sum_lookup tbl (xs @ ys) acc =
     (case sum_lookup tbl xs acc of Inl e \<Rightarrow> Inl e | Inr s \<Rightarrow> sum_lookup tbl ys s)"
  by (induction xs arbitrary: acc) (auto split: option.splits)

lemma week_number_in_year:
  assumes "1 \<le> month" "month \<le> 12"
  shows "week_number day month year = Inr (spec_day_of_year day month year div 7)"
  using month_cases [OF assms]
  by (cases "is_leap_year year")
     (auto simp: week_number_def month_len_def spec_day_of_year_def spec_month_lengths_def
        upto_from_1)

lemma week_number_month_13:
  "week_number day 13 year = Inr ((day + (if is_leap_year year then 366 else 365)) div 7)"
  by (simp add: week_number_def month_len_def upto_from_1)

lemma week_number_beyond:
  assumes "14 \<le> month"
  shows "week_number day month year = Inl (KeyError 13)"
proof -
  have "[1..month - 1] = [1..13 - 1] @ 13 # [13 + 1..month - 1]"
    using assms by (intro upto_split3) simp_all
  then have split: "[1..month - 1] = [1..12] @ 13 # [14..month - 1]" by simp
  have twelve: "\<exists>s. sum_lookup (if is_leap_year year then month_len(2 \<mapsto> 29) else month_len) [1..12] 0 = Inr s"
    by (simp add: month_len_def upto_from_1)
  have miss: "(if is_leap_year year then month_len(2 \<mapsto> 29) else month_len) 13 = None"
    by (simp add: month_len_def)
  from twelve obtain s where
    s: "sum_lookup (if is_leap_year year then month_len(2 \<mapsto> 29) else month_len) [1..12] 0 = Inr s"
    by blast
  show ?thesis
    unfolding week_number_def Let_def split sum_lookup_append s
    by (simp add: miss)
qed

lemma week_number_nonpositive_month:
  assumes "month \<le> 0"
  shows "week_number day month year = Inr (day div 7)"
  using assms by (simp add: week_number_def)

lemma week_number_returns:
  assumes "month \<le> 13"
  shows "\<exists>w. week_number day month year = Inr w"
proof -
  consider "month \<le> 0" | "1 \<le> month" "month \<le> 12" | "month = 13"
    using assms by linarith
  then show ?thesis
    by cases (simp_all add: week_number_nonpositive_month week_number_in_year week_number_month_13)
qed


section \<open>The leap-year rule\<close>

text \<open>
  C2. For every integer year, \<open>is_leap_year\<close> is true exactly when the year is divisible
  by 4 and not by 100, or divisible by 400. It is true for 2000, 1996 and 2024 and false
  for 1900, 2023 and 2100. The function is total: it has a value at every integer.
\<close>

theorem is_leap_year_gregorian:
  "is_leap_year year = ((4 dvd year \<and> \<not> 100 dvd year) \<or> 400 dvd year)
   \<and> is_leap_year 2000 \<and> is_leap_year 1996 \<and> is_leap_year 2024
   \<and> \<not> is_leap_year 1900 \<and> \<not> is_leap_year 2023 \<and> \<not> is_leap_year 2100"
  by (simp add: is_leap_year_def dvd_eq_mod_eq_0)

theorem is_leap_year_gregorian_witness:
  "is_leap_year (-400) \<and> 400 dvd (-400 :: int) \<and> \<not> is_leap_year (-100) \<and> 100 dvd (-100 :: int)"
  using is_leap_year_gregorian [of "-400"] is_leap_year_gregorian [of "-100"] by simp

section \<open>The weekday\<close>

text \<open>
  C1. For every day, every month from 1 to 12 and every year from 1753 on,
  \<open>day_of_week\<close> returns the weekday name of the specification's algorithm: the floor
  of 1.25 times the last two digits of the year, plus the day and the month code, less 1
  for January and February of a leap year, plus 4 before 1800, plus 2 from 1800 to 1899,
  less 1 from 2001 to 2100, and the name that belongs to the remainder modulo 7.
\<close>

theorem day_of_week_follows_spec:
  assumes "1 \<le> month" "month \<le> 12" "1753 \<le> year"
  shows "day_of_week day month year = Inr (spec_day_of_week day month year)"
proof -
  have yy: "int_times_1_25 (year mod 100) = \<lfloor>real_of_int (year mod 100) * 1.25\<rfloor>"
    by (rule int_times_1_25_floor) simp
  define janfeb where "janfeb \<longleftrightarrow> is_leap_year year \<and> (month = 1 \<or> month = 2)"
  define f where "f = \<lfloor>real_of_int (year mod 100) * 1.25\<rfloor> + day + spec_month_code month"
  have "day_of_week day month year =
      (let base = f;
           base = (if janfeb then base - 1 else base);
           base = (if year < 1800 then base + 4 else if year < 1900 then base + 2 else base);
           base = (if 2000 < year \<and> year \<le> 2100 then base - 1 else base)
       in Inr (spec_weekday_name (base mod 7)))"
    using assms
    by (simp only: day_of_week_def yy month_code_spec [OF assms(1,2)] weekday_spec Let_def
        option.case janfeb_def f_def) simp
  also have "\<dots> = Inr (spec_day_of_week day month year)"
    unfolding spec_day_of_week_def Let_def janfeb_def [symmetric] f_def [symmetric]
    by (cases janfeb) auto
  finally show ?thesis .
qed

theorem day_of_week_follows_spec_witness:
  "day_of_week 15 6 2021 = Inr (spec_day_of_week 15 6 2021)
   \<and> spec_day_of_week 15 6 2021 = ''Tuesday''"
  using day_of_week_follows_spec [of 6 2021 15]
  by (simp add: spec_day_of_week_def spec_month_code_def spec_weekday_name_def is_leap_year_def)


text \<open>
  C3. \<open>day_of_week\<close> raises exactly when the year is below 1753 or the month is not
  between 1 and 12, whatever the day is, and what it raises then is a \<open>ValueError\<close>;
  so it does for the year 1752 and for the months 13 and 0.
\<close>

theorem day_of_week_invalid_input:
  "(isl (day_of_week day month year) \<longleftrightarrow> year < 1753 \<or> month < 1 \<or> 12 < month)
   \<and> ((\<exists>msg. day_of_week day month year = Inl (ValueError msg))
        \<longleftrightarrow> year < 1753 \<or> month < 1 \<or> 12 < month)
   \<and> (\<exists>msg. day_of_week day month 1752 = Inl (ValueError msg))
   \<and> (\<exists>msg. day_of_week day 13 year = Inl (ValueError msg))
   \<and> (\<exists>msg. day_of_week day 0 year = Inl (ValueError msg))"
proof -
  have ok: "\<exists>name. day_of_week day month year = Inr name"
    if "\<not> (year < 1753 \<or> month < 1 \<or> 12 < month)"
    using that day_of_week_returns [of month year day] by simp
  have bad: "\<exists>msg. day_of_week day month year = Inl (ValueError msg)"
    if "year < 1753 \<or> month < 1 \<or> 12 < month"
    using that by (rule day_of_week_raises)
  have 1: "isl (day_of_week day month year) \<longleftrightarrow> year < 1753 \<or> month < 1 \<or> 12 < month"
    using ok bad by (metis sum.disc(1,2))
  have 2: "(\<exists>msg. day_of_week day month year = Inl (ValueError msg))
        \<longleftrightarrow> year < 1753 \<or> month < 1 \<or> 12 < month"
    using ok bad by (metis sum.distinct(1))
  show ?thesis
    using 1 2 day_of_week_raises [of 1752 month day] day_of_week_raises [of year 13 day]
      day_of_week_raises [of year 0 day]
    by simp
qed

theorem day_of_week_invalid_input_witness:
  "\<not> isl (day_of_week 40 12 1753) \<and> isl (day_of_week 1 12 1752) \<and> isl (day_of_week 1 13 2021)"
  using day_of_week_invalid_input [of 40 12 1753] day_of_week_invalid_input [of 1 12 1752]
    day_of_week_invalid_input [of 1 13 2021]
  by simp



text \<open>
  C9. The two lookups of \<open>day_of_week\<close> are defined: the month codes have exactly the
  keys 1 to 12 and the weekday names exactly the keys 0 to 6, the remainder of any base
  modulo 7, negative or not, is among those, no input makes \<open>day_of_week\<close> raise a
  \<open>KeyError\<close>, and for a month from 1 to 12 and a year from 1753 on it returns one of
  the seven weekday names, whatever the day.
\<close>

theorem day_of_week_lookups_defined:
  "dom month_code = {1..12} \<and> dom weekday = {0..6}
   \<and> (\<forall>base :: int. base mod 7 \<in> {0..6})
   \<and> (\<forall>key. day_of_week day month year \<noteq> Inl (KeyError key))
   \<and> (1 \<le> month \<and> month \<le> 12 \<and> 1753 \<le> year \<longrightarrow>
        (\<exists>name \<in> set [''Sunday'', ''Monday'', ''Tuesday'', ''Wednesday'', ''Thursday'',
            ''Friday'', ''Saturday'']. day_of_week day month year = Inr name))"
proof -
  have d1: "dom month_code = {1..12}"
  proof -
    have "dom month_code = {1, 2, 3, 4, 5, 6, 7, 8, 9, 10, 11, 12}"
      by (auto simp: month_code_def split: if_splits)
    also have "\<dots> = {1..12::int}" by (simp add: set_eq_iff) presburger
    finally show ?thesis .
  qed
  have d2: "dom weekday = {0..6}"
  proof -
    have "dom weekday = {1, 2, 3, 4, 5, 6, 0}"
      by (auto simp: weekday_def split: if_splits)
    also have "\<dots> = {0..6::int}" by (simp add: set_eq_iff) presburger
    finally show ?thesis .
  qed
  have r: "\<forall>base :: int. base mod 7 \<in> {0..6}"
  proof
    fix base :: int
    have "0 \<le> base mod 7" "base mod 7 < 7" by simp_all
    then show "base mod 7 \<in> {0..6}" by simp
  qed
  have k: "\<forall>key. day_of_week day month year \<noteq> Inl (KeyError key)"
  proof (cases "year < 1753 \<or> month < 1 \<or> 12 < month")
    case True
    then show ?thesis using day_of_week_raises [of year month day] by auto
  next
    case False
    then show ?thesis using day_of_week_returns [of month year day] by auto
  qed
  have n: "\<exists>name \<in> set [''Sunday'', ''Monday'', ''Tuesday'', ''Wednesday'', ''Thursday'',
            ''Friday'', ''Saturday'']. day_of_week day month year = Inr name"
    if v: "1 \<le> month" "month \<le> 12" "1753 \<le> year"
  proof -
    obtain code where c: "month_code month = Some code"
      using month_code_defined [OF v(1,2)] by blast
    define base where "base =
      (let base = int_times_1_25 (year mod 100) + day + code;
           base = (if is_leap_year year \<and> (month = 1 \<or> month = 2) then base - 1 else base);
           base = (if year < 1800 then base + 4 else if year < 1900 then base + 2 else base)
       in if 2000 < year \<and> year \<le> 2100 then base - 1 else base)"
    obtain name where n: "name \<in> set [''Sunday'', ''Monday'', ''Tuesday'', ''Wednesday'',
        ''Thursday'', ''Friday'', ''Saturday'']" "weekday (base mod 7) = Some name"
      using weekday_names [of base] by blast
    have "day_of_week day month year = Inr name"
      using v n(2) by (simp add: day_of_week_def c Let_def base_def)
    with n(1) show ?thesis by blast
  qed
  from d1 d2 r k n show ?thesis by blast
qed

theorem day_of_week_lookups_defined_witness:
  "day_of_week (-100) 2 1800 = Inr ''Wednesday'' \<and> (-94) mod 7 = (4::int)
   \<and> ''Wednesday'' \<in> set [''Sunday'', ''Monday'', ''Tuesday'', ''Wednesday'', ''Thursday'',
            ''Friday'', ''Saturday'']"
  using day_of_week_lookups_defined [of "-100" 2 1800]
  by (simp add: day_of_week_def month_code_def weekday_def is_leap_year_def int_times_1_25_def)

section \<open>The week number\<close>

text \<open>
  C5, as the code has it. For every day, every month from 1 to 12 and every year,
  \<open>week_number\<close> returns, without raising, the floor of the day of the year divided by
  7, where the day of the year is the day plus the lengths of the months before, with 29
  days for February in a leap year. The division rounds toward negative infinity; it is
  the truncating division when the day of the year is not negative. In particular
  \<open>week_number(1, 1, 2021)\<close> is 0 and \<open>week_number(10, 1, 2021)\<close> is 1.
\<close>

theorem week_number_floor_division:
  "(1 \<le> month \<and> month \<le> 12 \<longrightarrow>
      week_number day month year
        = Inr \<lfloor>real_of_int (spec_day_of_year day month year) / 7\<rfloor>
      \<and> (0 \<le> spec_day_of_year day month year \<longrightarrow>
           week_number day month year = Inr (trunc_div (spec_day_of_year day month year) 7)))
   \<and> week_number 1 1 2021 = Inr 0 \<and> week_number 10 1 2021 = Inr 1"
proof -
  have fl: "\<lfloor>real_of_int k / 7\<rfloor> = k div 7" for k :: int
    using floor_divide_of_int_eq [of k 7, where ?'a = real] by simp
  have tr: "trunc_div k 7 = k div 7" if "0 \<le> k" for k :: int
  proof (cases "k = 0")
    case True
    then show ?thesis by (simp add: trunc_div_def)
  next
    case False
    with that have "0 < k" by simp
    then show ?thesis by (simp add: trunc_div_def)
  qed
  have a: "week_number 1 1 2021 = Inr 0" "week_number 10 1 2021 = Inr 1"
    by (simp_all add: week_number_def is_leap_year_def)
  show ?thesis
    using a by (simp add: week_number_in_year fl tr)
qed

theorem week_number_floor_division_witness:
  "week_number 29 2 2024 = Inr 8 \<and> spec_day_of_year 29 2 2024 = 60
   \<and> trunc_div 60 7 = 8 \<and> \<lfloor>real_of_int 60 / 7\<rfloor> = (8::int)"
  using week_number_floor_division [of 2 29 2024]
  by (simp add: spec_day_of_year_def spec_month_lengths_def is_leap_year_def trunc_div_def)

text \<open>
  C5, as the specification states it, fails for a negative day of the year: on the day
  -1 of January 2021 the code returns -1, and division truncating toward zero gives 0.
\<close>

theorem week_number_not_truncating:
  "week_number (-1) 1 2021 = Inr (-1)
   \<and> trunc_div (spec_day_of_year (-1) 1 2021) 7 = 0
   \<and> week_number (-1) 1 2021 \<noteq> Inr (trunc_div (spec_day_of_year (-1) 1 2021) 7)"
  by (simp add: week_number_def is_leap_year_def spec_day_of_year_def trunc_div_def)

text \<open>
  C10, as the code has it. For a month of 0 or below, \<open>week_number\<close> returns the day
  divided by 7, rounded down, because no month is summed. It raises exactly for a month
  of 14 or above, and then the \<open>KeyError\<close> of the key 13. For the month 13 it sums all
  twelve months and returns the day plus 365, or 366 in a leap year, divided by 7.
\<close>

theorem week_number_outside_months:
  "(month \<le> 0 \<longrightarrow> week_number day month year = Inr (day div 7))
   \<and> (isl (week_number day month year) \<longleftrightarrow> 14 \<le> month)
   \<and> (14 \<le> month \<longrightarrow> week_number day month year = Inl (KeyError 13))
   \<and> week_number day 13 year = Inr ((day + (if is_leap_year year then 366 else 365)) div 7)"
proof -
  have "isl (week_number day month year) \<longleftrightarrow> 14 \<le> month"
  proof (cases "14 \<le> month")
    case True
    then show ?thesis by (simp add: week_number_beyond)
  next
    case False
    then have "month \<le> 13" by simp
    then obtain w where "week_number day month year = Inr w"
      using week_number_returns by blast
    with False show ?thesis by simp
  qed
  then show ?thesis
    by (simp add: week_number_nonpositive_month week_number_beyond week_number_month_13)
qed

theorem week_number_outside_months_witness:
  "week_number 20 0 2021 = Inr 2 \<and> week_number 20 (-3) 2021 = Inr 2
   \<and> week_number 20 14 2021 = Inl (KeyError 13)"
  using week_number_outside_months [of 0 20 2021] week_number_outside_months [of "-3" 20 2021]
    week_number_outside_months [of 14 20 2021]
  by simp

text \<open>
  C10, as stated, fails at the month 13: \<open>range(1, 13)\<close> ends at the key 12, so no
  lookup is out of range and \<open>week_number(1, 13, 2021)\<close> returns 52.
\<close>

theorem week_number_month_13_returns:
  "week_number 1 13 2021 = Inr 52 \<and> \<not> isl (week_number 1 13 2021)"
  by (simp add: week_number_def month_len_def is_leap_year_def upto_from_1)

section \<open>The summary\<close>

text \<open>
  C6. For every day, every month from 1 to 12 and every year from 1753 on,
  \<open>date_summary\<close> returns a summary: its leap-year entry is the result of
  \<open>is_leap_year\<close>, its weekday entry the name \<open>day_of_week\<close> returns and its week
  entry the number \<open>week_number\<close> returns.
\<close>

theorem date_summary_composes:
  assumes "1 \<le> month" "month \<le> 12" "1753 \<le> year"
  shows "\<exists>wd wk. day_of_week day month year = Inr wd
           \<and> week_number day month year = Inr wk
           \<and> date_summary day month year
               = Inr \<lparr>leapyear = is_leap_year year, weekday_name = wd, week = wk\<rparr>"
proof -
  obtain wd where wd: "day_of_week day month year = Inr wd"
    using day_of_week_returns [OF assms] by blast
  obtain wk where wk: "week_number day month year = Inr wk"
    using week_number_returns [of month day year] assms(2) by auto
  have "date_summary day month year
      = Inr \<lparr>leapyear = is_leap_year year, weekday_name = wd, week = wk\<rparr>"
    by (simp add: date_summary_def wd wk)
  with wd wk show ?thesis by blast
qed

theorem date_summary_composes_witness:
  "date_summary 15 6 2021 = Inr \<lparr>leapyear = False, weekday_name = ''Tuesday'', week = 23\<rparr>
   \<and> day_of_week 15 6 2021 = Inr ''Tuesday'' \<and> week_number 15 6 2021 = Inr 23
   \<and> \<not> is_leap_year 2021"
  using date_summary_composes [of 6 2021 15]
  by (simp add: date_summary_def day_of_week_def week_number_def month_code_def weekday_def
      month_len_def is_leap_year_def int_times_1_25_def upto_from_1)

text \<open>
  C7. \<open>date_summary\<close> raises an error exactly when \<open>day_of_week\<close> raises it, which
  is when the year is below 1753 or the month is not between 1 and 12; the error is then
  the \<open>ValueError\<close> of \<open>day_of_week\<close>, never one of \<open>week_number\<close>, and no summary is
  returned.
\<close>

theorem date_summary_invalid_input:
  "(\<forall>e. date_summary day month year = Inl e \<longleftrightarrow> day_of_week day month year = Inl e)
   \<and> (isl (date_summary day month year) \<longleftrightarrow> year < 1753 \<or> month < 1 \<or> 12 < month)
   \<and> (isl (date_summary day month year) \<longrightarrow>
        (\<exists>msg. date_summary day month year = Inl (ValueError msg)))
   \<and> (isl (date_summary day month year) \<longrightarrow> (\<forall>s. date_summary day month year \<noteq> Inr s))"
proof (cases "year < 1753 \<or> month < 1 \<or> 12 < month")
  case True
  then obtain msg where m: "day_of_week day month year = Inl (ValueError msg)"
    using day_of_week_raises by blast
  then have "date_summary day month year = Inl (ValueError msg)"
    by (simp add: date_summary_def)
  with m True show ?thesis by auto
next
  case False
  then have v: "1 \<le> month" "month \<le> 12" "1753 \<le> year" by simp_all
  obtain wd where wd: "day_of_week day month year = Inr wd"
    using day_of_week_returns [OF v] by blast
  obtain wk where wk: "week_number day month year = Inr wk"
    using week_number_returns [of month day year] v(2) by auto
  have "date_summary day month year
      = Inr \<lparr>leapyear = is_leap_year year, weekday_name = wd, week = wk\<rparr>"
    by (simp add: date_summary_def wd wk)
  with wd False show ?thesis by auto
qed

theorem date_summary_invalid_input_witness:
  "isl (date_summary 1 1 1752) \<and> isl (date_summary 1 14 2021) \<and> \<not> isl (date_summary 31 12 1753)
   \<and> date_summary 1 14 2021 = Inl (ValueError ''Month must be in 1..12.'')
   \<and> week_number 1 14 2021 = Inl (KeyError 13)"
  using date_summary_invalid_input [of 1 1 1752] date_summary_invalid_input [of 1 14 2021]
    date_summary_invalid_input [of 31 12 1753]
  by (simp add: date_summary_def day_of_week_def week_number_beyond)

section \<open>Determinism\<close>




end
